theory Spec2Isabelle
  imports Complex_Main
begin

section \<open>MultiSourceScraper: the rate-limited request engine\<close>

text \<open>
  A shallow embedding of \<^verbatim>\<open>src/app/scraper/multi_source_scraper.py\<close>. Python names
  that start with an underscore lose it (\<^verbatim>\<open>_check_rate_limit\<close> is
  \<open>check_rate_limit\<close>), since an Isabelle name cannot start with one.

  Wall-clock readings (\<^verbatim>\<open>time.time()\<close>) and sleep durations are floats in the
  source; the model uses exact rationals for them. The scraper is modelled as one
  task running alone: the interleaving of several coroutines is outside the model.
\<close>

subsection \<open>State and environment\<close>

text \<open>
  One entry of \<^verbatim>\<open>self.rate_limits\<close>:
  \<^verbatim>\<open>{'calls': 0, 'reset_time': time.time(), 'limit': 4500}\<close>.
\<close>

record rate_info =
  calls :: int
  reset_time :: rat
  limit :: int

text \<open>
  The effects of a call, in the order they happen: a suspension
  (\<^verbatim>\<open>await asyncio.sleep(d)\<close>), the statement \<^verbatim>\<open>rate_info['calls'] += 1\<close> for a
  source, and one \<^verbatim>\<open>self.session.get(...)\<close>.
\<close>

datatype event = Sleep rat | Incr string | Get

text \<open>
  The part of \<^verbatim>\<open>self\<close> that the request path reads or writes, together with two
  counters that index the environment: \<open>ticks\<close> is the number of \<^verbatim>\<open>time.time()\<close>
  readings taken so far and \<open>gets\<close> the number of HTTP requests issued so far.
\<close>

record world =
  rate_limits :: "string \<rightharpoonup> rate_info"
  session :: bool
  ticks :: nat
  gets :: nat
  log :: "event list"

text \<open>
  What one \<^verbatim>\<open>session.get\<close> yields. \<open>retry_after\<close> is the value of the
  \<^verbatim>\<open>Retry-After\<close> header when the header is present, \<open>text_ok\<close> says whether
  \<^verbatim>\<open>await response.text()\<close> returns (it raises when the body cannot be read), and
  \<open>json\<close> is the value of \<^verbatim>\<open>await response.json()\<close>, \<open>None\<close> when that call
  raises.
\<close>

record 'j response =
  status :: int
  retry_after :: "string option"
  text_ok :: bool
  json :: "'j option"

datatype 'j outcome = Raises | Response "'j response"

text \<open>
  The environment: the \<open>n\<close>-th reading of the clock and the outcome of the \<open>n\<close>-th
  request. Nothing is assumed of either; the clock need not even be monotone.
\<close>

record 'j env =
  clock :: "nat \<Rightarrow> rat"
  respond :: "nat \<Rightarrow> 'j outcome"

text \<open>
  \<^verbatim>\<open>__init__\<close> (lines 53-56): only \<^verbatim>\<open>'github'\<close> has a window. The reading of the
  clock taken there is the parameter \<open>t0\<close>.
\<close>

definition init :: "rat \<Rightarrow> world" where
  "init t0 =
     \<lparr>rate_limits = [''github'' \<mapsto> \<lparr>calls = 0, reset_time = t0, limit = 4500\<rparr>],
      session = False, ticks = 0, gets = 0, log = []\<rparr>"

definition init_session :: "world \<Rightarrow> world" where
  "init_session w = (if \<not> session w then w\<lparr>session := True\<rparr> else w)"

definition sleep :: "rat \<Rightarrow> world \<Rightarrow> world" where
  "sleep d w = w\<lparr>log := log w @ [Sleep d]\<rparr>"

subsection \<open>\<^verbatim>\<open>_check_rate_limit\<close> (lines 65-87)\<close>

definition check_rate_limit :: "string \<Rightarrow> 'j env \<Rightarrow> world \<Rightarrow> world" where
  "check_rate_limit source e w =
     (case rate_limits w source of
        None \<Rightarrow> w
      | Some rate_info \<Rightarrow>
          let current_time = clock e (ticks w);
              w1 = w\<lparr>ticks := ticks w + 1\<rparr>;
              ri1 = (if current_time - reset_time rate_info \<ge> 3600
                     then rate_info\<lparr>calls := 0, reset_time := current_time\<rparr>
                     else rate_info);
              wait_time = 3600 - (current_time - reset_time ri1);
              waits = (calls ri1 \<ge> limit ri1 \<and> wait_time > 0);
              w2 = (if waits then (sleep wait_time w1)\<lparr>ticks := ticks w1 + 1\<rparr> else w1);
              ri2 = (if waits then ri1\<lparr>calls := 0, reset_time := clock e (ticks w1)\<rparr>
                     else ri1);
              ri3 = ri2\<lparr>calls := calls ri2 + 1\<rparr>
          in w2\<lparr>rate_limits := (rate_limits w2)(source \<mapsto> ri3),
                 log := log w2 @ [Incr source]\<rparr>)"

subsection \<open>The library under \<^verbatim>\<open>_make_request\<close>\<close>

text \<open>
  Two library functions decide what the retry loop does, and both are parameters of
  the model, so that every statement holds for whatever the interpreter at hand does.
  \<open>int_of v\<close> is the value of \<^verbatim>\<open>int(v)\<close> on the text \<open>v\<close> of a header, \<open>None\<close> when
  the call raises \<^verbatim>\<open>ValueError\<close> (which characters count as blanks and digits, and
  how many digits are allowed, is the interpreter's matter). \<open>sleep_raises d\<close> says
  that \<^verbatim>\<open>await asyncio.sleep(d)\<close> raises for the integer delay \<open>d\<close>: it raises
  \<^verbatim>\<open>OverflowError\<close> when \<open>d\<close> is beyond the range of a float, and a call that raises
  suspends nothing. The log line ahead of the sleep of a 429 response (line 129)
  formats the integer that \<^verbatim>\<open>int\<close> has just read from a text; the interpreter
  formats every integer that it reads, so that line adds no case.
\<close>

record library =
  int_of :: "string \<Rightarrow> int option"
  sleep_raises :: "int \<Rightarrow> bool"

text \<open>What leaves \<^verbatim>\<open>_make_request\<close> as an exception.\<close>

datatype error = OverflowError

subsection \<open>\<^verbatim>\<open>_make_request\<close> (lines 89-152)\<close>

text \<open>
  Lines 123-128: the delay of a 429 response. The default of 3600 stays when the
  header is absent or when \<^verbatim>\<open>int\<close> raises.
\<close>

definition retry_delay :: "library \<Rightarrow> 'j response \<Rightarrow> int" where
  "retry_delay l r =
     (case retry_after r of
        None \<Rightarrow> 3600
      | Some v \<Rightarrow> (case int_of l v of None \<Rightarrow> 3600 | Some n \<Rightarrow> n))"

text \<open>
  The loop \<^verbatim>\<open>for attempt in range(retries)\<close> (lines 117-152), over the list of the
  attempt numbers still to run. Each iteration issues one request.

  \<open>on_error\<close> is the \<^verbatim>\<open>except Exception\<close> handler (lines 147-150): when
  \<^verbatim>\<open>attempt < retries - 1\<close> it sleeps for \<^verbatim>\<open>2 ** attempt\<close> seconds, and the loop
  goes on with the next attempt number. The handler is outside the \<^verbatim>\<open>try\<close> block,
  so a sleep that raises there ends the call with that exception. An exception
  raised by \<^verbatim>\<open>session.get\<close>, by \<^verbatim>\<open>response.json()\<close>, by \<^verbatim>\<open>response.text()\<close> or by
  a sleep inside the \<^verbatim>\<open>try\<close> block reaches the handler.

  The last branch of the status test (lines 141-146) reads the body and then does
  what the handler does, with the same test and the same delay; if its own sleep raises,
  the handler runs and its sleep raises again. So that branch and the handler have
  the same outcome, whether the body can be read or not.

  The 429 branch sleeps for the delay of the response and falls out of the \<^verbatim>\<open>if\<close>
  chain, so the \<^verbatim>\<open>for\<close> statement moves to the next attempt number; when that sleep
  raises, the handler runs.

  The request headers (lines 100-115) are built before the loop and never read by it;
  the outcome of a request is given by the environment, so they are not part of the
  model.
\<close>

fun request_loop ::
  "library \<Rightarrow> 'j env \<Rightarrow> int \<Rightarrow> nat list \<Rightarrow> world \<Rightarrow> (error + 'j option) \<times> world" where
  "request_loop l e retries [] w = (Inr None, w)"
| "request_loop l e retries (attempt # rest) w =
     (let w1 = w\<lparr>gets := gets w + 1, log := log w @ [Get]\<rparr>;
          on_error =
            (if int attempt < retries - 1 then
               (if sleep_raises l (2 ^ attempt) then (Inl OverflowError, w1)
                else request_loop l e retries rest (sleep (2 ^ attempt) w1))
             else request_loop l e retries rest w1)
      in case respond e (gets w) of
           Raises \<Rightarrow> on_error
         | Response r \<Rightarrow>
             if status r = 200 then
               (case json r of Some body \<Rightarrow> (Inr (Some body), w1) | None \<Rightarrow> on_error)
             else if status r = 429 then
               (if sleep_raises l (retry_delay l r) then on_error
                else request_loop l e retries rest (sleep (of_int (retry_delay l r)) w1))
             else if status r = 401 then
               (if text_ok r then (Inr None, w1) else on_error)
             else if status r = 403 then
               (if text_ok r then (Inr None, w1) else on_error)
             else on_error)"

text \<open>
  The whole call. The result \<open>Inr None\<close> is Python's \<^verbatim>\<open>None\<close>, \<open>Inr (Some body)\<close>
  is the parsed JSON body of a 200 response, and \<open>Inl\<close> is an exception that
  leaves the call.
\<close>

definition make_request ::
  "library \<Rightarrow> string \<Rightarrow> int \<Rightarrow> 'j env \<Rightarrow> world \<Rightarrow> (error + 'j option) \<times> world" where
  "make_request l source retries e w =
     (let w0 = (if \<not> session w then init_session w else w) in
      if \<not> session w0 then (Inr None, w0)
      else request_loop l e retries [0..<nat retries] (check_rate_limit source e w0))"

subsection \<open>Concrete environments and states\<close>

text \<open>
  A library for the examples: \<^verbatim>\<open>int\<close> as it is on the header texts that the
  examples use (\<^verbatim>\<open>int('5')\<close> is 5, \<^verbatim>\<open>int('soon')\<close> raises), and a sleep that
  raises from the first integer on that no longer converts to a float.
\<close>

definition example_library :: library where
  "example_library =
     \<lparr>int_of = (\<lambda>v. if v = ''5'' then Some 5 else None),
      sleep_raises = (\<lambda>d. 2 ^ 1024 - 2 ^ 970 \<le> d)\<rparr>"

definition resp :: "int \<Rightarrow> string option \<Rightarrow> 'j option \<Rightarrow> 'j outcome" where
  "resp s h j = Response \<lparr>status = s, retry_after = h, text_ok = True, json = j\<rparr>"

definition still_env :: "'j env" where
  "still_env = \<lparr>clock = (\<lambda>n. 0), respond = (\<lambda>n. Raises)\<rparr>"

definition hour_env :: "'j env" where
  "hour_env = \<lparr>clock = (\<lambda>n. if n = 0 then 100 else 3700), respond = (\<lambda>n. Raises)\<rparr>"

definition full_window :: world where
  "full_window =
     \<lparr>rate_limits = [''github'' \<mapsto> \<lparr>calls = 4500, reset_time = 0, limit = 4500\<rparr>],
      session = True, ticks = 0, gets = 0, log = []\<rparr>"

definition env_429s :: "nat env" where
  "env_429s =
     \<lparr>clock = (\<lambda>n. 10),
      respond = (\<lambda>n. if n < 3 then resp 429 (Some ''5'') None else resp 200 None (Some 7))\<rparr>"

definition env_429_then_200 :: "nat env" where
  "env_429_then_200 =
     \<lparr>clock = (\<lambda>n. 10),
      respond = (\<lambda>n. if n = 0 then resp 429 (Some ''5'') None
                     else if n = 1 then resp 429 None None
                     else if n = 2 then resp 429 (Some ''soon'') None
                     else resp 200 None (Some 7))\<rparr>"


definition env_403 :: "nat env" where
  "env_403 =
     \<lparr>clock = (\<lambda>n. 10),
      respond = (\<lambda>n. if n = 0 then resp 403 None None else resp 200 None (Some 7))\<rparr>"

definition env_500_403_200 :: "nat env" where
  "env_500_403_200 =
     \<lparr>clock = (\<lambda>n. 10),
      respond = (\<lambda>n. if n = 0 then resp 500 None None
                     else if n = 1 then resp 403 None None
                     else resp 200 None (Some 7))\<rparr>"

definition env_500s :: "nat env" where
  "env_500s = \<lparr>clock = (\<lambda>n. 10), respond = (\<lambda>n. resp 500 None None)\<rparr>"

subsection \<open>Reading the trace\<close>

text \<open>How often \<^verbatim>\<open>rate_info['calls'] += 1\<close> has run for a source.\<close>

definition incr_count :: "string \<Rightarrow> world \<Rightarrow> nat" where
  "incr_count s w = length (filter (\<lambda>ev. ev = Incr s) (log w))"

text \<open>An event of the retry loop: a request or a suspension.\<close>

definition loop_event :: "event \<Rightarrow> bool" where
  "loop_event ev = (case ev of Get \<Rightarrow> True | Sleep d \<Rightarrow> True | Incr s \<Rightarrow> False)"

text \<open>A suspension.\<close>

definition sleep_event :: "event \<Rightarrow> bool" where
  "sleep_event ev = (case ev of Sleep d \<Rightarrow> True | _ \<Rightarrow> False)"

text \<open>
  What the loop adds to the trace: requests and suspensions only, one request for
  each attempt it makes, and no more attempts than attempt numbers.
\<close>

definition loop_trace :: "nat \<Rightarrow> world \<Rightarrow> world \<Rightarrow> bool" where
  "loop_trace n w w' =
     (\<exists>tr. log w' = log w @ tr \<and> list_all loop_event tr \<and>
           gets w' = gets w + length (filter (\<lambda>ev. ev = Get) tr) \<and>
           length (filter (\<lambda>ev. ev = Get) tr) \<le> n)"

text \<open>
  The trace of \<open>k\<close> attempts that were each answered with 429: a request, then the
  suspension for that response's delay.
\<close>

definition retry_sleeps :: "library \<Rightarrow> (nat \<Rightarrow> 'j response) \<Rightarrow> nat \<Rightarrow> event list" where
  "retry_sleeps l rs k =
     concat (map (\<lambda>i. [Get, Sleep (of_int (retry_delay l (rs i)))]) [0..<k])"

section \<open>MultiSourceScraper: scoring, age estimation and aggregation\<close>

text \<open>
  The dictionaries that the GitHub API returns are modelled as records with one
  optional field per key the code reads: \<open>None\<close> is an absent key. A text field
  of the payload is a string or JSON \<^verbatim>\<open>null\<close>; the counts are integers. Floats are
  modelled by exact rationals. A \<open>string\<close> holds a Python text as its bytes in
  UTF-8, so that every text has its \<open>string\<close> and equal texts have equal ones.
\<close>

datatype jval = JNull | JStr string

text \<open>\<^verbatim>\<open>str(v)\<close>, as an f-string applies it.\<close>

definition py_str :: "jval \<Rightarrow> string" where
  "py_str v = (case v of JNull \<Rightarrow> ''None'' | JStr s \<Rightarrow> s)"

datatype frequency = Low | Medium | High | VeryHigh

record user_data =
  u_bio :: "jval option"
  u_created_at :: "jval option"
  u_followers :: "int option"
  u_following :: "int option"

record repo =
  r_name :: "jval option"
  r_stargazers_count :: "int option"
  r_forks_count :: "int option"
  r_language :: "jval option"
  r_created_at :: "jval option"

text \<open>
  The clock and the library's timestamp parser. \<open>fromisoformat s\<close> is the instant,
  in microseconds, that \<^verbatim>\<open>datetime.fromisoformat(s)\<close> denotes when it returns a
  datetime with a UTC offset; it is \<open>None\<close> when the call raises and also when it
  returns a datetime without offset, because subtracting such a value from
  \<^verbatim>\<open>datetime.now(timezone.utc)\<close>, or from a datetime that was subtracted from it,
  raises \<^verbatim>\<open>TypeError\<close>. \<open>now_utc\<close> is the reading of lines 328 and 401,
  \<open>year_now\<close> the year of the reading of line 354.
\<close>

record time_env =
  fromisoformat :: "string \<Rightarrow> int option"
  now_utc :: int
  year_now :: int

text \<open>\<^verbatim>\<open>d.get(key, 0)\<close> for a count.\<close>

definition get_int :: "int option \<Rightarrow> int" where
  "get_int v = (case v of None \<Rightarrow> 0 | Some n \<Rightarrow> n)"

text \<open>
  \<^verbatim>\<open>d.get(key, '')\<close> followed by a string method: the method raises
  \<^verbatim>\<open>AttributeError\<close> on \<^verbatim>\<open>None\<close>, which is the result \<open>None\<close> here.
\<close>

definition get_text :: "jval option \<Rightarrow> string option" where
  "get_text v = (case v of None \<Rightarrow> Some [] | Some JNull \<Rightarrow> None | Some (JStr s) \<Rightarrow> Some s)"

text \<open>\<^verbatim>\<open>s.replace('Z', '+00:00')\<close>\<close>

definition replace_Z :: "string \<Rightarrow> string" where
  "replace_Z s = concat (map (\<lambda>c. if c = CHR ''Z'' then ''+00:00'' else [c]) s)"

text \<open>\<^verbatim>\<open>datetime.fromisoformat(d.get('created_at', '').replace('Z', '+00:00'))\<close>\<close>

definition parse_timestamp :: "time_env \<Rightarrow> jval option \<Rightarrow> int option" where
  "parse_timestamp te v =
     (case get_text v of None \<Rightarrow> None | Some s \<Rightarrow> fromisoformat te (replace_Z s))"

text \<open>\<^verbatim>\<open>delta.days\<close> of a difference in microseconds, and \<^verbatim>\<open>days / 365.25\<close>.\<close>

definition days :: "int \<Rightarrow> int" where
  "days delta = delta div 86400000000"

definition years_of_days :: "int \<Rightarrow> rat" where
  "years_of_days d = of_int d / (1461 / 4)"

text \<open>
  The part of the interpreter's Unicode database that line 348 and line 351 use, as
  a parameter of the model. \<open>str_lower s\<close> is \<^verbatim>\<open>s.lower()\<close>. \<open>decimal_digit s\<close>
  reads one character at the start of the text \<open>s\<close>: when that character is a
  decimal digit of any script (the characters that \<^verbatim>\<open>\d\<close> matches and that
  \<^verbatim>\<open>int\<close> reads), it gives its value, from 0 to 9, and the text after it.
\<close>

record unicode_db =
  str_lower :: "string \<Rightarrow> string"
  decimal_digit :: "string \<Rightarrow> (int \<times> string) option"

text \<open>
  \<^verbatim>\<open>re.search(r'class of (20\d{2})', bio)\<close> and \<^verbatim>\<open>int(match.group(1))\<close>:
  \<open>match_class_of\<close> matches the pattern at the start of its argument and gives the
  number that \<^verbatim>\<open>int\<close> reads from \<^verbatim>\<open>20\<close> and the two digits; \<open>search_class_of\<close>
  tries every start from left to right. The pattern starts with an ASCII letter, so
  a match starts at the first byte of a character.
\<close>

definition match_class_of :: "unicode_db \<Rightarrow> string \<Rightarrow> int option" where
  "match_class_of ud s =
     (if take 11 s = ''class of 20'' then
        (case decimal_digit ud (drop 11 s) of
           None \<Rightarrow> None
         | Some (d1, s1) \<Rightarrow>
             (case decimal_digit ud s1 of
                None \<Rightarrow> None
              | Some (d2, s2) \<Rightarrow> Some (2000 + 10 * d1 + d2)))
      else None)"

fun search_class_of :: "unicode_db \<Rightarrow> string \<Rightarrow> int option" where
  "search_class_of ud [] = None"
| "search_class_of ud (c # cs) =
     (case match_class_of ud (c # cs) of
        Some y \<Rightarrow> Some y
      | None \<Rightarrow> search_class_of ud cs)"

subsection \<open>\<^verbatim>\<open>_calculate_technical_score\<close> (lines 267-322)\<close>

definition stars :: "repo \<Rightarrow> int" where
  "stars r = get_int (r_stargazers_count r)"

definition forks :: "repo \<Rightarrow> int" where
  "forks r = get_int (r_forks_count r)"

text \<open>\<^verbatim>\<open>contributions['frequency'] in ['high', 'very_high']\<close>\<close>

definition is_active :: "frequency \<Rightarrow> bool" where
  "is_active f = (f = High \<or> f = VeryHigh)"

text \<open>
  The local variables that the loop \<^verbatim>\<open>for repo in repos\<close> (line 283) updates. The
  loop stands at the indentation of \<^verbatim>\<open>if repos:\<close>, and the three assignments of
  lines 288-307 are in its body: they run once for every repository, each time with
  the languages seen so far.
\<close>

record sub_scores =
  languages :: "string set"
  technical :: rat
  innovation :: rat
  collaboration :: rat

definition score_step ::
  "user_data \<Rightarrow> repo list \<Rightarrow> frequency \<Rightarrow> repo \<Rightarrow> sub_scores \<Rightarrow> sub_scores" where
  "score_step u repos freq r s =
     (let total_stars = (\<Sum>x\<leftarrow>repos. stars x);
          total_forks = (\<Sum>x\<leftarrow>repos. forks x);
          langs = (case r_language r of
                     Some (JStr l) \<Rightarrow> if l \<noteq> [] then insert l (languages s) else languages s
                   | _ \<Rightarrow> languages s)
      in \<lparr>languages = langs,
          technical = min 1 (of_int total_stars * (3 / 10) / 100
                             + of_int total_forks * (2 / 10) / 50
                             + of_nat (card langs) * (2 / 10) / 5
                             + of_nat (length repos) * (3 / 10) / 20),
          innovation = min 1 (of_int total_stars * (4 / 10) / 100
                              + of_int total_forks * (3 / 10) / 50
                              + (if is_active freq then 3 / 10 else 1 / 10)),
          collaboration = min 1 (of_int (get_int (u_followers u)) * (4 / 10) / 500
                                 + of_int (get_int (u_following u)) * (2 / 10) / 200
                                 + (if is_active freq then 4 / 10 else 2 / 10))\<rparr>)"

text \<open>Lines 271-307: the three scores start at 0.0 and the loop runs.\<close>

definition score_loop :: "user_data \<Rightarrow> repo list \<Rightarrow> frequency \<Rightarrow> sub_scores" where
  "score_loop u repos freq =
     fold (score_step u repos freq) repos
       \<lparr>languages = {}, technical = 0, innovation = 0, collaboration = 0\<rparr>"

text \<open>\<^verbatim>\<open>_calculate_age_score\<close> (lines 397-419); any exception gives 5.0.\<close>

definition calculate_age_score :: "time_env \<Rightarrow> user_data \<Rightarrow> rat" where
  "calculate_age_score te u =
     (case parse_timestamp te (u_created_at u) of
        None \<Rightarrow> 5
      | Some created_at \<Rightarrow>
          let account_age = years_of_days (days (now_utc te - created_at));
              estimated_age = 16 + account_age;
              score = (if estimated_age < 25 then 7 / 10 + (estimated_age - 16) * (3 / 100)
                       else if estimated_age \<le> 35 then 1 - (estimated_age - 25) * (3 / 100)
                       else 7 / 10 - (estimated_age - 35) * (2 / 100))
          in max 0 (min (score * 10) 10))"

record scores =
  technical_score :: rat
  innovation_score :: rat
  collaboration_score :: rat
  age_score :: rat
  founder_potential :: rat

definition calculate_technical_score ::
  "time_env \<Rightarrow> user_data \<Rightarrow> repo list \<Rightarrow> frequency \<Rightarrow> scores" where
  "calculate_technical_score te u repos freq =
     (let s = score_loop u repos freq;
          fp = technical s * (4 / 10) + innovation s * (3 / 10) + collaboration s * (3 / 10)
      in \<lparr>technical_score = technical s * 10,
          innovation_score = innovation s * 10,
          collaboration_score = collaboration s * 10,
          age_score = calculate_age_score te u,
          founder_potential = fp * 10\<rparr>)"

subsection \<open>\<^verbatim>\<open>_calculate_age_info\<close> (lines 324-373)\<close>

record achievement =
  a_name :: jval
  a_stars :: int
  created_after_years :: rat

text \<open>
  \<open>YearsText x\<close> is the text \<^verbatim>\<open>f"{x:.1f} years"\<close> for the number \<open>x\<close>, and \<open>NA\<close> the
  text \<^verbatim>\<open>"N/A"\<close>.
\<close>

datatype account_age_text = NA | YearsText rat

record age_info =
  account_age :: account_age_text
  estimated_age :: "int option"
  early_achievements :: "achievement list"

text \<open>
  \<^verbatim>\<open>round(x, 1)\<close>, and \<^verbatim>\<open>int(x)\<close> on a number, which drops the fraction. A number
  of years \<open>d / 365.25\<close> never lies halfway between two tenths, so the rule for
  ties plays no part.
\<close>

definition round1 :: "rat \<Rightarrow> rat" where
  "round1 x = of_int \<lfloor>x * 10 + 1 / 2\<rfloor> / 10"

definition py_trunc :: "rat \<Rightarrow> int" where
  "py_trunc x = (if 0 \<le> x then \<lfloor>x\<rfloor> else \<lceil>x\<rceil>)"

text \<open>
  The loop of lines 336-344 over the three repositories with the most stars; \<open>None\<close>
  when a timestamp of a repository makes it raise.
\<close>

fun early_loop ::
  "time_env \<Rightarrow> int \<Rightarrow> repo list \<Rightarrow> achievement list \<Rightarrow> achievement list option" where
  "early_loop te created_at [] acc = Some acc"
| "early_loop te created_at (r # rs) acc =
     (case parse_timestamp te (r_created_at r) of
        None \<Rightarrow> None
      | Some repo_created \<Rightarrow>
          let repo_age = years_of_days (days (repo_created - created_at)) in
          if repo_age \<le> 2 \<and> stars r \<ge> 50
          then early_loop te created_at rs
                 (acc @ [\<lparr>a_name = (case r_name r of None \<Rightarrow> JStr [] | Some v \<Rightarrow> v),
                           a_stars = stars r,
                           created_after_years = round1 repo_age\<rparr>])
          else early_loop te created_at rs acc)"

text \<open>
  The body of the \<^verbatim>\<open>try\<close> statement; \<open>None\<close> when it raises. \<open>grad\<close> is
  \<^verbatim>\<open>estimated_age\<close> after line 354, and \<^verbatim>\<open>if not estimated_age\<close> (line 357) holds
  for \<^verbatim>\<open>None\<close> and for 0.
\<close>

definition age_info_body ::
  "unicode_db \<Rightarrow> time_env \<Rightarrow> user_data \<Rightarrow> repo list \<Rightarrow> age_info option" where
  "age_info_body ud te u repos =
     (case parse_timestamp te (u_created_at u) of
        None \<Rightarrow> None
      | Some created_at \<Rightarrow>
          let account_years = years_of_days (days (now_utc te - created_at)) in
          (case early_loop te created_at (take 3 (sort_key (\<lambda>x. - stars x) repos)) [] of
             None \<Rightarrow> None
           | Some early \<Rightarrow>
               (case get_text (u_bio u) of
                  None \<Rightarrow> None
                | Some b \<Rightarrow>
                    let grad = (case search_class_of ud (str_lower ud b) of
                                  None \<Rightarrow> None
                                | Some grad_year \<Rightarrow> Some (year_now te - grad_year + 22));
                        estimated = (case grad of
                                       None \<Rightarrow> max (16 + account_years) 16
                                     | Some a \<Rightarrow>
                                         if a = 0 then max (16 + account_years) 16
                                         else of_int a)
                    in Some \<lparr>account_age = YearsText account_years,
                             estimated_age = Some (py_trunc estimated),
                             early_achievements = early\<rparr>)))"

definition calculate_age_info ::
  "unicode_db \<Rightarrow> time_env \<Rightarrow> user_data \<Rightarrow> repo list \<Rightarrow> age_info" where
  "calculate_age_info ud te u repos =
     (case age_info_body ud te u repos of
        Some info \<Rightarrow> info
      | None \<Rightarrow> \<lparr>account_age = NA, estimated_age = None, early_achievements = []\<rparr>)"

subsection \<open>\<^verbatim>\<open>_deduplicate_results\<close> (lines 430-441) and the pipeline\<close>

text \<open>
  A profile as \<^verbatim>\<open>_search_github\<close> builds it (lines 195-216): the scores and the
  fields of the user that identify a profile; the other keys are left to the extension
  of the record.
\<close>

record profile = scores +
  name :: "jval option"
  company :: "jval option"
  bio :: "jval option"

text \<open>\<^verbatim>\<open>f"{profile.get('name', '')}-{profile.get('company', '')}"\<close>\<close>

definition profile_key :: "'a profile_scheme \<Rightarrow> string" where
  "profile_key p =
     (case name p of None \<Rightarrow> [] | Some v \<Rightarrow> py_str v) @ ''-'' @
     (case company p of None \<Rightarrow> [] | Some v \<Rightarrow> py_str v)"

fun dedup_loop ::
  "string set \<Rightarrow> 'a profile_scheme list \<Rightarrow> 'a profile_scheme list \<Rightarrow> 'a profile_scheme list" where
  "dedup_loop seen unique_profiles [] = unique_profiles"
| "dedup_loop seen unique_profiles (p # profiles) =
     (let key = profile_key p in
      if key \<notin> seen then dedup_loop (insert key seen) (unique_profiles @ [p]) profiles
      else dedup_loop seen unique_profiles profiles)"

definition deduplicate_results :: "'a profile_scheme list \<Rightarrow> 'a profile_scheme list" where
  "deduplicate_results profiles = dedup_loop {} [] profiles"

text \<open>
  Line 220, the last statement of \<^verbatim>\<open>_search_github\<close>:
  \<^verbatim>\<open>sorted(profiles, key=lambda x: x['founder_potential'], reverse=True)\<close>. Python's
  sort is stable also with \<^verbatim>\<open>reverse=True\<close>, as is the insertion sort \<open>sort_key\<close>
  on the negated key.
\<close>

definition sorted_by_founder_potential :: "'a profile_scheme list \<Rightarrow> 'a profile_scheme list" where
  "sorted_by_founder_potential profiles = sort_key (\<lambda>x. - founder_potential x) profiles"

text \<open>
  \<^verbatim>\<open>search_professional_profiles\<close> (lines 154-164), from the list \<open>profiles\<close> that
  the loop of \<^verbatim>\<open>_search_github\<close> has built, in fetch order: the list is sorted
  there and deduplicated here.
\<close>

definition search_professional_profiles :: "'a profile_scheme list \<Rightarrow> 'a profile_scheme list" where
  "search_professional_profiles profiles =
     deduplicate_results (sorted_by_founder_potential profiles)"

text \<open>
  The order of the two steps as the specification words it, for comparison:
  deduplicate, then sort.
\<close>

definition dedupe_then_sort :: "'a profile_scheme list \<Rightarrow> 'a profile_scheme list" where
  "dedupe_then_sort profiles = sorted_by_founder_potential (deduplicate_results profiles)"

text \<open>
  The position of the first element of a list that satisfies \<open>P\<close>, and the position
  in fetch order of the first profile with the score and the key of \<open>p\<close>.
\<close>

definition first_index :: "('a \<Rightarrow> bool) \<Rightarrow> 'a list \<Rightarrow> nat" where
  "first_index P xs = length (takeWhile (\<lambda>x. \<not> P x) xs)"

definition fetch_position :: "'a profile_scheme list \<Rightarrow> 'a profile_scheme \<Rightarrow> nat" where
  "fetch_position profiles p =
     first_index (\<lambda>q. founder_potential q = founder_potential p \<and> profile_key q = profile_key p)
       profiles"

subsection \<open>Concrete records\<close>

definition mk_profile :: "string \<Rightarrow> string \<Rightarrow> string \<Rightarrow> rat \<Rightarrow> profile" where
  "mk_profile n c b fp =
     \<lparr>technical_score = 0, innovation_score = 0, collaboration_score = 0, age_score = 5,
      founder_potential = fp,
      name = Some (JStr n), company = Some (JStr c), bio = Some (JStr b)\<rparr>"

text \<open>
  The Unicode database as it is on ASCII text, which is all that the examples use:
  \<^verbatim>\<open>lower\<close> turns \<^verbatim>\<open>A\<close> to \<^verbatim>\<open>Z\<close> into \<^verbatim>\<open>a\<close> to \<^verbatim>\<open>z\<close>, and the decimal digits are
  \<^verbatim>\<open>0\<close> to \<^verbatim>\<open>9\<close>.
\<close>

definition ascii_lower_char :: "char \<Rightarrow> char" where
  "ascii_lower_char c =
     (case map_of (zip ''ABCDEFGHIJKLMNOPQRSTUVWXYZ'' ''abcdefghijklmnopqrstuvwxyz'') c of
        Some l \<Rightarrow> l
      | None \<Rightarrow> c)"

definition ascii_decimal_digit :: "string \<Rightarrow> (int \<times> string) option" where
  "ascii_decimal_digit s =
     (case s of
        [] \<Rightarrow> None
      | c # rest \<Rightarrow>
          (let n = (of_char c :: nat)
           in if 48 \<le> n \<and> n \<le> 57 then Some (int n - 48, rest) else None))"

definition ascii_db :: unicode_db where
  "ascii_db = \<lparr>str_lower = map ascii_lower_char, decimal_digit = ascii_decimal_digit\<rparr>"

definition day_env :: time_env where
  "day_env =
     \<lparr>fromisoformat = (\<lambda>s. if s = ''2016-11-03T00:00:00+00:00'' then Some 0 else None),
      now_utc = 3653 * 86400000000, year_now = 2026\<rparr>"

definition user_with_bio :: "jval option \<Rightarrow> user_data" where
  "user_with_bio b =
     \<lparr>u_bio = b, u_created_at = Some (JStr ''2016-11-03T00:00:00Z''),
      u_followers = Some 900, u_following = Some 40\<rparr>"

section \<open>Properties of the rate limiter\<close>

lemma check_rate_limit_no_window:
  "rate_limits w source = None \<Longrightarrow> check_rate_limit source e w = w"
  by (simp add: check_rate_limit_def)

lemma dom_check_rate_limit:
  "dom (rate_limits (check_rate_limit source e w)) = dom (rate_limits w)"
  by (auto simp: check_rate_limit_def Let_def sleep_def split: option.splits)

text \<open>
  C10. Only \<^verbatim>\<open>'github'\<close> has a rate-limit window: in every state whose
  \<^verbatim>\<open>rate_limits\<close> dictionary has the keys \<^verbatim>\<open>__init__\<close> gives it, a call of
  \<^verbatim>\<open>_check_rate_limit\<close> for any other source returns at once and leaves the whole
  state as it was: no clock reading, no suspension, no counter incremented.
\<close>

theorem check_rate_limit_other_source:
  assumes "dom (rate_limits w) = {''github''}" and "source \<noteq> ''github''"
  shows "check_rate_limit source e w = w"
proof -
  from assms have "source \<notin> dom (rate_limits w)" by simp
  then have "rate_limits w source = None" by (simp add: domIff)
  then show ?thesis by (rule check_rate_limit_no_window)
qed

theorem check_rate_limit_other_source_witness:
  "dom (rate_limits (init 0)) = {''github''} \<and> ''linkedin'' \<noteq> ''github'' \<and>
   check_rate_limit ''linkedin'' (still_env :: unit env) (init 0)
     = init 0"
proof -
  have d: "dom (rate_limits (init 0)) = {''github''}" by (simp add: init_def)
  have n: "''linkedin'' \<noteq> ''github''" by simp
  show ?thesis
    using d n check_rate_limit_other_source [OF d n] by simp
qed

text \<open>
  C4. Whatever the window holds and whatever the clock reads, one call of
  \<^verbatim>\<open>_check_rate_limit\<close> for a source with a window of positive limit (the code's only
  window has limit 4500) leaves \<open>calls\<close> at most \<open>limit\<close>. If 3600 seconds or more
  have passed since \<open>reset_time\<close>, the window restarts at the current reading and the
  call is the first of the new window. If the window is full, the call sleeps for the
  rest of the window, \<open>3600 - (now - reset_time)\<close>, and restarts it at the reading
  taken after the sleep. Otherwise \<open>calls\<close> grows by exactly one. The increment is
  the last effect of the call in every case.
\<close>

theorem check_rate_limit_window:
  fixes e :: "'j env"
  assumes win: "rate_limits w source = Some ri" and lim: "0 < limit ri"
  shows "\<exists>ri'. rate_limits (check_rate_limit source e w) source = Some ri' \<and>
           limit ri' = limit ri \<and> calls ri' \<le> limit ri \<and>
           (clock e (ticks w) - reset_time ri \<ge> 3600 \<longrightarrow>
              calls ri' = 1 \<and> reset_time ri' = clock e (ticks w) \<and>
              log (check_rate_limit source e w) = log w @ [Incr source]) \<and>
           (clock e (ticks w) - reset_time ri < 3600 \<and> calls ri \<ge> limit ri \<longrightarrow>
              calls ri' = 1 \<and> reset_time ri' = clock e (ticks w + 1) \<and>
              log (check_rate_limit source e w) =
                log w @ [Sleep (3600 - (clock e (ticks w) - reset_time ri)), Incr source]) \<and>
           (clock e (ticks w) - reset_time ri < 3600 \<and> calls ri < limit ri \<longrightarrow>
              calls ri' = calls ri + 1 \<and> reset_time ri' = reset_time ri \<and>
              log (check_rate_limit source e w) = log w @ [Incr source])"
  using win lim by (auto simp: check_rate_limit_def Let_def sleep_def)

theorem check_rate_limit_window_witness:
  "rate_limits (check_rate_limit ''github'' (hour_env :: unit env) full_window) ''github''
     = Some \<lparr>calls = 1, reset_time = 3700, limit = 4500\<rparr> \<and>
   log (check_rate_limit ''github'' (hour_env :: unit env) full_window)
     = [Sleep 3500, Incr ''github'']"
proof -
  have win: "rate_limits full_window ''github'' = Some \<lparr>calls = 4500, reset_time = 0, limit = 4500\<rparr>"
    by (simp add: full_window_def)
  have lim: "0 < limit \<lparr>calls = 4500, reset_time = 0, limit = 4500\<rparr>" by simp
  from check_rate_limit_window [OF win lim, of "hour_env :: unit env"]
  obtain ri' where "rate_limits (check_rate_limit ''github'' (hour_env :: unit env) full_window) ''github'' = Some ri'"
    and "limit ri' = 4500" and "calls ri' = 1" and "reset_time ri' = 3700"
    and "log (check_rate_limit ''github'' (hour_env :: unit env) full_window) = [Sleep 3500, Incr ''github'']"
    by (auto simp: hour_env_def full_window_def)
  then show ?thesis by (cases ri') simp
qed

section \<open>Properties of the request loop\<close>

lemma gets_check_rate_limit [simp]: "gets (check_rate_limit source e w) = gets w"
  by (simp add: check_rate_limit_def Let_def sleep_def split: option.splits)

lemma session_check_rate_limit [simp]: "session (check_rate_limit source e w) = session w"
  by (simp add: check_rate_limit_def Let_def sleep_def split: option.splits)

lemma gets_init_session [simp]: "gets (init_session w) = gets w"
  by (simp add: init_session_def)

lemma log_init_session [simp]: "log (init_session w) = log w"
  by (simp add: init_session_def)

lemma incr_count_init_session [simp]: "incr_count s (init_session w) = incr_count s w"
  by (simp add: init_session_def incr_count_def)

lemma rate_limits_init_session [simp]: "rate_limits (init_session w) = rate_limits w"
  by (simp add: init_session_def)

lemma make_request_unfold:
  "make_request l source retries e w =
     request_loop l e retries [0..<nat retries] (check_rate_limit source e (init_session w))"
  by (simp add: make_request_def init_session_def Let_def)

text \<open>The loop never touches \<^verbatim>\<open>rate_limits\<close>.\<close>

lemma request_loop_rate_limits:
  "rate_limits (snd (request_loop l e retries as w)) = rate_limits w"
proof (induction as arbitrary: w)
  case Nil
  show ?case by simp
next
  case (Cons a rest)
  show ?case
    by (simp add: Let_def Cons.IH sleep_def split: outcome.splits option.splits)
qed

lemma loop_trace_refl: "loop_trace n w w"
  by (simp add: loop_trace_def)

lemma loop_trace_step:
  assumes "loop_trace n v w'" and "log v = log w @ Get # sl" and "list_all sleep_event sl"
    and "gets v = Suc (gets w)"
  shows "loop_trace (Suc n) w w'"
proof -
  from assms(1) obtain tr where tr: "log w' = log v @ tr" "list_all loop_event tr"
    "gets w' = gets v + length (filter (\<lambda>ev. ev = Get) tr)"
    "length (filter (\<lambda>ev. ev = Get) tr) \<le> n"
    unfolding loop_trace_def by blast
  have sl: "list_all loop_event sl" "filter (\<lambda>ev. ev = Get) sl = []"
    using assms(3)
    by (auto simp: list_all_iff loop_event_def sleep_event_def filter_empty_conv split: event.splits)
  have "log w' = log w @ (Get # sl @ tr)" using tr(1) assms(2) by simp
  moreover have "list_all loop_event (Get # sl @ tr)"
    using tr(2) sl(1) by (simp add: loop_event_def)
  moreover have "gets w' = gets w + length (filter (\<lambda>ev. ev = Get) (Get # sl @ tr))"
    using tr(3) assms(4) sl(2) by simp
  moreover have "length (filter (\<lambda>ev. ev = Get) (Get # sl @ tr)) \<le> Suc n"
    using tr(4) sl(2) by simp
  ultimately show ?thesis unfolding loop_trace_def by blast
qed

lemma request_loop_trace:
  "loop_trace (length as) w (snd (request_loop l e retries as w))"
proof (induction as arbitrary: w)
  case Nil
  show ?case by (simp add: loop_trace_refl)
next
  case (Cons a rest)
  let ?w1 = "w\<lparr>gets := Suc (gets w), log := log w @ [Get]\<rparr>"
  have stop: "loop_trace (Suc (length rest)) w ?w1"
    by (rule loop_trace_step [OF loop_trace_refl, of _ _ "[]"]) simp_all
  have go: "loop_trace (Suc (length rest)) w (snd (request_loop l e retries rest ?w1))"
    by (rule loop_trace_step [OF Cons.IH, of _ _ "[]"]) simp_all
  have gos: "loop_trace (Suc (length rest)) w (snd (request_loop l e retries rest (sleep d ?w1)))" for d
    by (rule loop_trace_step [OF Cons.IH, of _ _ "[Sleep d]"]) (simp_all add: sleep_def sleep_event_def)
  show ?case
    using stop go gos by (simp add: Let_def split: outcome.splits option.splits)
qed


lemma request_loop_gets_le:
  "gets (snd (request_loop l e retries as w)) \<le> gets w + length as"
  using request_loop_trace [of as w l e retries] unfolding loop_trace_def by auto



text \<open>
  The windows are never created, removed or resized after \<^verbatim>\<open>__init__\<close>: a request
  leaves the keys of \<^verbatim>\<open>rate_limits\<close> and every limit as they were.
\<close>

lemma check_rate_limit_limit:
  "map_option limit (rate_limits (check_rate_limit source e w) s) = map_option limit (rate_limits w s)"
  by (simp add: check_rate_limit_def Let_def sleep_def split: option.splits)

lemma make_request_limit:
  "map_option limit (rate_limits (snd (make_request l source retries e w)) s)
     = map_option limit (rate_limits w s)"
  by (simp add: make_request_unfold request_loop_rate_limits check_rate_limit_limit)

lemma make_request_dom:
  "dom (rate_limits (snd (make_request l source retries e w))) = dom (rate_limits w)"
  by (simp add: make_request_unfold request_loop_rate_limits dom_check_rate_limit)

text \<open>A run of 429 responses whose delays the sleep accepts.\<close>

lemma request_loop_429_prefix:
  assumes "\<forall>i<k. respond e (gets w + i) = Response (rs i) \<and> status (rs i) = 429 \<and>
                 \<not> sleep_raises l (retry_delay l (rs i))"
    and "k \<le> length as"
  shows "request_loop l e retries as w =
         request_loop l e retries (drop k as)
           (w\<lparr>gets := gets w + k, log := log w @ retry_sleeps l rs k\<rparr>)"
  using assms
proof (induction k arbitrary: as w rs)
  case 0
  then show ?case by (simp add: retry_sleeps_def)
next
  case (Suc k)
  then obtain a rest where as: "as = a # rest" by (cases as) auto
  from Suc.prems have r0: "respond e (gets w) = Response (rs 0)" "status (rs 0) = 429"
    "\<not> sleep_raises l (retry_delay l (rs 0))"
    by force+
  let ?w1 = "sleep (of_int (retry_delay l (rs 0))) (w\<lparr>gets := gets w + 1, log := log w @ [Get]\<rparr>)"
  have step: "request_loop l e retries as w = request_loop l e retries rest ?w1"
    using r0 as by (simp add: Let_def)
  have pre: "\<forall>i<k. respond e (gets ?w1 + i) = Response (rs (Suc i)) \<and> status (rs (Suc i)) = 429 \<and>
                   \<not> sleep_raises l (retry_delay l (rs (Suc i)))"
  proof (intro allI impI)
    fix i assume "i < k"
    then have "Suc i < Suc k" by simp
    with Suc.prems(1) have "respond e (gets w + Suc i) = Response (rs (Suc i)) \<and>
        status (rs (Suc i)) = 429 \<and> \<not> sleep_raises l (retry_delay l (rs (Suc i)))"
      by blast
    then show "respond e (gets ?w1 + i) = Response (rs (Suc i)) \<and> status (rs (Suc i)) = 429 \<and>
                   \<not> sleep_raises l (retry_delay l (rs (Suc i)))"
      by (simp add: sleep_def)
  qed
  have len: "k \<le> length rest" using Suc.prems(2) as by simp
  have sl: "retry_sleeps l rs (Suc k) =
            [Get, Sleep (of_int (retry_delay l (rs 0)))] @ retry_sleeps l (\<lambda>i. rs (Suc i)) k"
    unfolding retry_sleeps_def
    by (simp add: upt_conv_Cons map_Suc_upt [symmetric] comp_def del: upt_Suc)
  show ?case
    unfolding step Suc.IH [OF pre len] using as sl by (simp add: sleep_def)
qed

text \<open>A readable 401 or 403 ends the loop wherever it arrives.\<close>

lemma request_loop_auth:
  assumes "respond e n = Response r" and "status r = 401 \<or> status r = 403" and "text_ok r"
    and "gets w \<le> n"
  shows "gets (snd (request_loop l e retries as w)) \<le> n + 1 \<and>
         (gets (snd (request_loop l e retries as w)) = n + 1 \<longrightarrow>
            fst (request_loop l e retries as w) = Inr None \<and>
            (\<exists>tr. log (snd (request_loop l e retries as w)) = tr @ [Get]))"
  using assms(4)
proof (induction as arbitrary: w)
  case Nil
  then show ?case by simp
next
  case (Cons a rest)
  let ?w1 = "w\<lparr>gets := Suc (gets w), log := log w @ [Get]\<rparr>"
  show ?case
  proof (cases "gets w = n")
    case True
    then have "request_loop l e retries (a # rest) w = (Inr None, ?w1)"
      using assms(1-3) by (auto simp: Let_def)
    then show ?thesis using True by simp
  next
    case False
    with Cons.prems have lt: "gets w < n" by simp
    have stop: "gets ?w1 \<le> n + 1 \<and> (gets ?w1 = n + 1 \<longrightarrow> P)" for P
      using lt by simp
    have go: "gets (snd (request_loop l e retries rest ?w1)) \<le> n + 1 \<and>
         (gets (snd (request_loop l e retries rest ?w1)) = n + 1 \<longrightarrow>
            fst (request_loop l e retries rest ?w1) = Inr None \<and>
            (\<exists>tr. log (snd (request_loop l e retries rest ?w1)) = tr @ [Get]))"
      using lt by (intro Cons.IH) simp
    have gos: "gets (snd (request_loop l e retries rest (sleep d ?w1))) \<le> n + 1 \<and>
         (gets (snd (request_loop l e retries rest (sleep d ?w1))) = n + 1 \<longrightarrow>
            fst (request_loop l e retries rest (sleep d ?w1)) = Inr None \<and>
            (\<exists>tr. log (snd (request_loop l e retries rest (sleep d ?w1))) = tr @ [Get]))" for d
      using lt by (intro Cons.IH) (simp add: sleep_def)
    show ?thesis
      using stop go gos lt
      by (simp add: Let_def split: outcome.splits option.splits)
  qed
qed

lemmas eval_defs = make_request_def init_def init_session_def check_rate_limit_def Let_def sleep_def
    resp_def upt_rec retry_delay_def example_library_def

text \<open>
  C1, as the code has it. Every 429 response uses up one attempt number of the
  \<^verbatim>\<open>for\<close> loop, like any other failed attempt. Let the first \<open>k\<close> requests of a call
  be answered with 429, each with a delay that the sleep accepts, and the next one
  with a 200 whose body parses. The delay of a 429 response is its Retry-After
  header read by \<^verbatim>\<open>int\<close>, and 3600 when the header is absent or \<^verbatim>\<open>int\<close> raises. If
  \<open>k < retries\<close>, the call returns that body, having slept after each 429 for that
  response's delay and for nothing else. If \<open>retries \<le> k\<close>, the call returns
  \<^verbatim>\<open>None\<close> after \<open>retries\<close> requests and never issues the request that would have
  been answered with 200.
\<close>

theorem make_request_429_run:
  fixes e :: "'j env"
  assumes run: "\<forall>i<k. respond e (gets w + i) = Response (rs i) \<and> status (rs i) = 429 \<and>
                       \<not> sleep_raises l (retry_delay l (rs i))"
    and ok: "respond e (gets w + k) = Response r" "status r = 200" "json r = Some body"
  shows "(int k < retries \<longrightarrow>
            make_request l source retries e w =
              (Inr (Some body),
               (check_rate_limit source e (init_session w))
                 \<lparr>gets := gets w + k + 1,
                  log := log (check_rate_limit source e (init_session w))
                         @ retry_sleeps l rs k @ [Get]\<rparr>)) \<and>
         (retries \<le> int k \<longrightarrow>
            make_request l source retries e w =
              (Inr None,
               (check_rate_limit source e (init_session w))
                 \<lparr>gets := gets w + nat retries,
                  log := log (check_rate_limit source e (init_session w))
                         @ retry_sleeps l rs (nat retries)\<rparr>)) \<and>
         (\<forall>i<k. retry_delay l (rs i) =
                  (case retry_after (rs i) of
                     None \<Rightarrow> 3600
                   | Some v \<Rightarrow> (case int_of l v of None \<Rightarrow> 3600 | Some d \<Rightarrow> d)))"
proof (intro conjI impI)
  let ?wc = "check_rate_limit source e (init_session w)"
  have g: "gets ?wc = gets w" by simp
  have run': "\<forall>i<k. respond e (gets ?wc + i) = Response (rs i) \<and> status (rs i) = 429 \<and>
                    \<not> sleep_raises l (retry_delay l (rs i))"
    using run g by simp
  {
    assume lt: "int k < retries"
    then have len: "k \<le> length [0..<nat retries]" by simp
    have kn: "k < nat retries" using lt by simp
    have "drop k [0..<nat retries] = [k..<nat retries]" by (simp only: drop_upt add_0)
    also have "\<dots> = k # [Suc k..<nat retries]" using kn by (rule upt_conv_Cons)
    finally have d: "drop k [0..<nat retries] = k # [Suc k..<nat retries]" .
    show "make_request l source retries e w =
              (Inr (Some body),
               ?wc\<lparr>gets := gets w + k + 1, log := log ?wc @ retry_sleeps l rs k @ [Get]\<rparr>)"
      unfolding make_request_unfold request_loop_429_prefix [OF run' len] d
      using ok g by (simp add: Let_def)
  }
  {
    assume ge: "retries \<le> int k"
    then have len: "nat retries \<le> length [0..<nat retries]" by simp
    have run'': "\<forall>i<nat retries. respond e (gets ?wc + i) = Response (rs i) \<and>
                   status (rs i) = 429 \<and> \<not> sleep_raises l (retry_delay l (rs i))"
      using run' ge by auto
    show "make_request l source retries e w =
              (Inr None,
               ?wc\<lparr>gets := gets w + nat retries, log := log ?wc @ retry_sleeps l rs (nat retries)\<rparr>)"
      unfolding make_request_unfold request_loop_429_prefix [OF run'' len]
      using g by simp
  }
  show "\<forall>i<k. retry_delay l (rs i) =
                  (case retry_after (rs i) of
                     None \<Rightarrow> 3600
                   | Some v \<Rightarrow> (case int_of l v of None \<Rightarrow> 3600 | Some d \<Rightarrow> d))"
    by (simp add: retry_delay_def)
qed

theorem make_request_429_run_witness:
  "fst (make_request example_library ''github'' 4 env_429_then_200 (init 0)) = Inr (Some 7) \<and>
   log (snd (make_request example_library ''github'' 4 env_429_then_200 (init 0)))
     = [Incr ''github'', Get, Sleep 5, Get, Sleep 3600, Get, Sleep 3600, Get]"
proof -
  define rs :: "nat \<Rightarrow> nat response" where
    "rs = (\<lambda>i. \<lparr>status = 429,
                retry_after = (if i = 0 then Some ''5'' else if i = 1 then None else Some ''soon''),
                text_ok = True, json = None\<rparr>)"
  have run: "\<forall>i<3. respond env_429_then_200 (gets (init 0) + i) = Response (rs i) \<and>
               status (rs i) = 429 \<and> \<not> sleep_raises example_library (retry_delay example_library (rs i))"
  proof (intro allI impI)
    fix i :: nat assume "i < 3"
    then consider "i = 0" | "i = 1" | "i = 2" by linarith
    then show "respond env_429_then_200 (gets (init 0) + i) = Response (rs i) \<and>
               status (rs i) = 429 \<and> \<not> sleep_raises example_library (retry_delay example_library (rs i))"
      by cases
        (simp_all add: env_429_then_200_def rs_def resp_def init_def retry_delay_def
          example_library_def)
  qed
  have ok: "respond env_429_then_200 (gets (init 0) + 3)
            = Response \<lparr>status = 200, retry_after = None, text_ok = True, json = Some 7\<rparr>"
    by (simp add: env_429_then_200_def resp_def)
  have sl: "retry_sleeps example_library rs 3 = [Get, Sleep 5, Get, Sleep 3600, Get, Sleep 3600]"
    by (simp add: retry_sleeps_def upt_rec rs_def retry_delay_def example_library_def)
  have lg: "log (check_rate_limit ''github'' env_429_then_200 (init_session (init 0))) = [Incr ''github'']"
    by (simp add: eval_defs env_429_then_200_def)
  from make_request_429_run [OF run ok, of 7 4 "''github''"]
  have "make_request example_library ''github'' 4 env_429_then_200 (init 0) =
              (Inr (Some 7),
               (check_rate_limit ''github'' env_429_then_200 (init_session (init 0)))
                 \<lparr>gets := gets (init 0) + 3 + 1,
                  log := log (check_rate_limit ''github'' env_429_then_200 (init_session (init 0)))
                         @ retry_sleeps example_library rs 3 @ [Get]\<rparr>)"
    by simp
  then show ?thesis by (simp add: sl lg)
qed

text \<open>
  C1 as stated fails: with the default \<^verbatim>\<open>retries = 3\<close>, three 429 responses followed
  by a 200 give \<^verbatim>\<open>None\<close>; the three 429 responses used all three attempts.
\<close>

theorem run_of_429_uses_up_retries:
  "respond env_429s 0 = resp 429 (Some ''5'') None \<and>
   respond env_429s 1 = resp 429 (Some ''5'') None \<and>
   respond env_429s 2 = resp 429 (Some ''5'') None \<and>
   respond env_429s 3 = resp 200 None (Some 7) \<and>
   fst (make_request example_library ''github'' 3 env_429s (init 0)) = Inr None \<and>
   gets (snd (make_request example_library ''github'' 3 env_429s (init 0))) = 3"
  by (simp add: eval_defs env_429s_def)




text \<open>
  C5, as the code has it. When an attempt of a call, the first or a later one,
  receives status 401 or 403 and the body of the response can be read, that
  iteration of the loop returns \<^verbatim>\<open>None\<close> at once, whatever its attempt number and
  whatever attempts remain: one request, no sleep after it. For the whole call:
  when the request number \<open>n\<close> is answered so, the call issues no request after it,
  and if it issues that request, it returns \<^verbatim>\<open>None\<close> with that request as its last
  effect.
\<close>

theorem make_request_auth_terminal:
  fixes e :: "'j env"
  assumes "respond e n = Response r" and "status r = 401 \<or> status r = 403" and "text_ok r"
    and "gets w \<le> n"
  shows "(\<forall>attempt rest v. gets v = n \<longrightarrow>
            request_loop l e retries (attempt # rest) v =
              (Inr None, v\<lparr>gets := n + 1, log := log v @ [Get]\<rparr>)) \<and>
         gets (snd (make_request l source retries e w)) \<le> n + 1 \<and>
         (gets (snd (make_request l source retries e w)) = n + 1 \<longrightarrow>
            fst (make_request l source retries e w) = Inr None \<and>
            (\<exists>tr. log (snd (make_request l source retries e w)) = tr @ [Get]))"
proof -
  have one: "\<forall>attempt rest v. gets v = n \<longrightarrow>
            request_loop l e retries (attempt # rest) v =
              (Inr None, v\<lparr>gets := n + 1, log := log v @ [Get]\<rparr>)"
    using assms(1-3) by (auto simp: Let_def)
  have "gets (check_rate_limit source e (init_session w)) \<le> n"
    using assms(4) by simp
  from request_loop_auth [OF assms(1-3) this, of l retries "[0..<nat retries]"]
  show ?thesis
    using one unfolding make_request_unfold by blast
qed

theorem make_request_auth_terminal_witness:
  "fst (make_request example_library ''github'' 3 env_500_403_200 (init 0)) = Inr None \<and>
   gets (snd (make_request example_library ''github'' 3 env_500_403_200 (init 0))) = 2 \<and>
   (\<exists>tr. log (snd (make_request example_library ''github'' 3 env_500_403_200 (init 0))) = tr @ [Get])"
proof -
  have r: "respond env_500_403_200 1
           = Response \<lparr>status = 403, retry_after = None, text_ok = True, json = None\<rparr>"
    by (simp add: env_500_403_200_def resp_def)
  have g0: "gets (init 0) \<le> 1" by (simp add: init_def)
  have g: "gets (snd (make_request example_library ''github'' 3 env_500_403_200 (init 0))) = 2"
    by (simp add: eval_defs env_500_403_200_def)
  show ?thesis
    using make_request_auth_terminal [OF r _ _ g0, of example_library 3 "''github''"] g by simp
qed

text \<open>
  C5 as stated fails in what the caller is told: a 403 yields the same \<^verbatim>\<open>None\<close> as
  three 500 responses do, so no authorization error is signalled apart from plain
  failure.
\<close>

theorem forbidden_returns_plain_failure:
  "fst (make_request example_library ''github'' 3 env_403 (init 0)) = Inr None \<and>
   fst (make_request example_library ''github'' 3 env_500s (init 0)) = Inr None"
  by (simp add: eval_defs env_403_def env_500s_def)

section \<open>Properties of deduplication and of the pipeline\<close>

lemma dedup_loop_char:
  "dedup_loop seen acc ps =
     acc @ map (nth ps) (filter (\<lambda>i. profile_key (ps ! i) \<notin> seen \<and> (\<forall>j<i. profile_key (ps ! j) \<noteq> profile_key (ps ! i))) [0..<length ps])"
proof (induction ps arbitrary: seen acc)
  case Nil
  show ?case by simp
next
  case (Cons p ps)
  define P where "P = (\<lambda>s i. profile_key (ps ! i) \<notin> s \<and> (\<forall>j<i. profile_key (ps ! j) \<noteq> profile_key (ps ! i)))"
  define Q where "Q = (\<lambda>i. profile_key ((p # ps) ! i) \<notin> seen \<and> (\<forall>j<i. profile_key ((p # ps) ! j) \<noteq> profile_key ((p # ps) ! i)))"
  have IH: "dedup_loop s a ps = a @ map (nth ps) (filter (P s) [0..<length ps])" for s a
    unfolding P_def by (rule Cons.IH)
  have up: "[0..<length (p # ps)] = 0 # map Suc [0..<length ps]"
    by (simp add: upt_conv_Cons map_Suc_upt del: upt_Suc)
  have Qs: "Q \<circ> Suc = P (insert (profile_key p) seen)"
    by (rule ext) (auto simp: Q_def P_def less_Suc_eq_0_disj)
  have Q0: "Q 0 \<longleftrightarrow> profile_key p \<notin> seen"
    by (simp add: Q_def)
  have b: "nth (p # ps) \<circ> Suc = nth ps"
    by (rule ext) simp
  have tl: "map (nth (p # ps)) (filter Q (map Suc [0..<length ps]))
            = map (nth ps) (filter (P (insert (profile_key p) seen)) [0..<length ps])"
    by (simp only: filter_map map_map Qs b)
  have goal: "dedup_loop seen acc (p # ps) = acc @ map (nth (p # ps)) (filter Q [0..<length (p # ps)])"
  proof (cases "profile_key p \<in> seen")
    case True
    have same: "P (insert (profile_key p) seen) = P seen"
      using True by (intro ext) (auto simp: P_def)
    have "dedup_loop seen acc (p # ps) = dedup_loop seen acc ps"
      using True by (simp add: Let_def)
    also have "\<dots> = acc @ map (nth ps) (filter (P seen) [0..<length ps])"
      by (rule IH)
    also have "\<dots> = acc @ map (nth (p # ps)) (filter Q (map Suc [0..<length ps]))"
      by (simp only: tl same)
    also have "filter Q (map Suc [0..<length ps]) = filter Q [0..<length (p # ps)]"
      unfolding up using True by (simp add: Q0)
    finally show ?thesis .
  next
    case False
    have "dedup_loop seen acc (p # ps) = dedup_loop (insert (profile_key p) seen) (acc @ [p]) ps"
      using False by (simp add: Let_def)
    also have "\<dots> = (acc @ [p]) @ map (nth ps) (filter (P (insert (profile_key p) seen)) [0..<length ps])"
      by (rule IH)
    also have "\<dots> = acc @ p # map (nth (p # ps)) (filter Q (map Suc [0..<length ps]))"
      by (simp only: tl append_assoc append_Cons append_Nil)
    also have "p # map (nth (p # ps)) (filter Q (map Suc [0..<length ps]))
               = map (nth (p # ps)) (filter Q [0..<length (p # ps)])"
      unfolding up using False by (simp add: Q0)
    finally show ?thesis .
  qed
  show ?case using goal unfolding Q_def .
qed


lemma deduplicate_results_char:
  "deduplicate_results ps =
     map (nth ps) (filter (\<lambda>i. \<forall>j<i. profile_key (ps ! j) \<noteq> profile_key (ps ! i)) [0..<length ps])"
  unfolding deduplicate_results_def dedup_loop_char by simp

lemma deduplicate_results_mem:
  "p \<in> set (deduplicate_results ps) \<longleftrightarrow>
     (\<exists>i<length ps. p = ps ! i \<and> (\<forall>j<i. profile_key (ps ! j) \<noteq> profile_key (ps ! i)))"
  unfolding deduplicate_results_char by auto

lemma deduplicate_results_keys:
  "profile_key ` set (deduplicate_results ps) = profile_key ` set ps"
proof
  show "profile_key ` set (deduplicate_results ps) \<subseteq> profile_key ` set ps"
    by (auto simp: deduplicate_results_mem)
  show "profile_key ` set ps \<subseteq> profile_key ` set (deduplicate_results ps)"
  proof
    fix k assume "k \<in> profile_key ` set ps"
    then obtain n where n: "n < length ps" "profile_key (ps ! n) = k"
      by (auto simp: in_set_conv_nth)
    define i where "i = (LEAST m. m < length ps \<and> profile_key (ps ! m) = k)"
    have i: "i < length ps \<and> profile_key (ps ! i) = k"
      unfolding i_def using n by (intro LeastI [of "\<lambda>m. m < length ps \<and> profile_key (ps ! m) = k" n]) simp
    have least: "\<forall>j<i. profile_key (ps ! j) \<noteq> profile_key (ps ! i)"
    proof (intro allI impI notI)
      fix j assume j: "j < i" "profile_key (ps ! j) = profile_key (ps ! i)"
      then have "j < length ps \<and> profile_key (ps ! j) = k" using i by simp
      then have "i \<le> j" unfolding i_def by (rule Least_le)
      with j show False by simp
    qed
    have "ps ! i \<in> set (deduplicate_results ps)"
      unfolding deduplicate_results_mem using i least by blast
    then show "k \<in> profile_key ` set (deduplicate_results ps)"
      using i by force
  qed
qed

lemma deduplicate_results_distinct:
  "distinct (map profile_key (deduplicate_results ps))"
proof -
  let ?I = "filter (\<lambda>i. \<forall>j<i. profile_key (ps ! j) \<noteq> profile_key (ps ! i)) [0..<length ps]"
  have "inj_on (\<lambda>i. profile_key (ps ! i)) (set ?I)"
  proof (rule inj_onI)
    fix a b assume a: "a \<in> set ?I" and b: "b \<in> set ?I"
      and eq: "profile_key (ps ! a) = profile_key (ps ! b)"
    show "a = b"
    proof (rule ccontr)
      assume "a \<noteq> b"
      then consider "a < b" | "b < a" by linarith
      then show False using a b eq by cases auto
    qed
  qed
  then have "distinct (map (\<lambda>i. profile_key (ps ! i)) ?I)"
    by (simp add: distinct_map)
  then show ?thesis
    unfolding deduplicate_results_char by (simp add: comp_def)
qed

lemma deduplicate_results_sorted:
  assumes "sorted (map f ps)"
  shows "sorted (map f (deduplicate_results ps))"
proof -
  let ?I = "filter (\<lambda>i. \<forall>j<i. profile_key (ps ! j) \<noteq> profile_key (ps ! i)) [0..<length ps]"
  have "sorted ?I" by (rule sorted_wrt_filter) simp
  moreover have "set ?I \<subseteq> {..<length ps}" by auto
  ultimately have I: "sorted ?I" "set ?I \<subseteq> {..<length ps}" by blast+
  have mono: "\<And>a b. a \<le> b \<Longrightarrow> b < length ps \<Longrightarrow> f (ps ! a) \<le> f (ps ! b)"
    using assms sorted_nth_mono [of "map f ps"] by fastforce
  have "sorted (map (\<lambda>i. f (ps ! i)) is)" if "sorted is" "set is \<subseteq> {..<length ps}" for "is"
    using that by (induction "is") (auto intro: mono)
  from this [OF I] show ?thesis
    unfolding deduplicate_results_char by (simp add: comp_def)
qed

lemma find_filter: "find P (filter Q xs) = find (\<lambda>x. Q x \<and> P x) xs"
  by (induction xs) auto

lemma pipeline_properties:
  fixes profiles :: "'a profile_scheme list"
  defines "out \<equiv> search_professional_profiles profiles"
  shows "sorted (map (\<lambda>p. - founder_potential p) out)"
    and "distinct (map profile_key out)"
    and "profile_key ` set out = profile_key ` set profiles"
    and "\<forall>p\<in>set out. \<forall>q\<in>set profiles.
           profile_key q = profile_key p \<longrightarrow> founder_potential q \<le> founder_potential p"
    and "\<forall>p\<in>set out.
           find (\<lambda>q. founder_potential q = founder_potential p \<and> profile_key q = profile_key p) profiles = Some p"
proof -
  let ?f = "\<lambda>p::'a profile_scheme. - founder_potential p"
  let ?xs = "sort_key ?f profiles"
  have out: "out = deduplicate_results ?xs"
    by (simp add: out_def search_professional_profiles_def sorted_by_founder_potential_def)
  have srt: "sorted (map ?f ?xs)" by (rule sorted_sort_key)
  show "sorted (map ?f out)"
    unfolding out using srt by (rule deduplicate_results_sorted)
  show "distinct (map profile_key out)"
    unfolding out by (rule deduplicate_results_distinct)
  show "profile_key ` set out = profile_key ` set profiles"
    unfolding out deduplicate_results_keys by simp
  show "\<forall>p\<in>set out. \<forall>q\<in>set profiles.
           profile_key q = profile_key p \<longrightarrow> founder_potential q \<le> founder_potential p"
  proof (intro ballI impI)
    fix p q assume p: "p \<in> set out" and q: "q \<in> set profiles"
      and k: "profile_key q = profile_key p"
    from p obtain i where i: "i < length ?xs" "p = ?xs ! i"
      "\<forall>j<i. profile_key (?xs ! j) \<noteq> profile_key (?xs ! i)"
      unfolding out deduplicate_results_mem by blast
    from q have "q \<in> set ?xs" by simp
    then obtain j where j: "j < length ?xs" "q = ?xs ! j"
      unfolding in_set_conv_nth by blast
    have "i \<le> j"
    proof (rule ccontr)
      assume "\<not> i \<le> j"
      then have "j < i" by simp
      with i(3) have "profile_key (?xs ! j) \<noteq> profile_key (?xs ! i)" by blast
      with k i(2) j(2) show False by simp
    qed
    then have "map ?f ?xs ! i \<le> map ?f ?xs ! j"
      using srt j(1) by (intro sorted_nth_mono) simp_all
    then show "founder_potential q \<le> founder_potential p"
      using i j by simp
  qed
  show "\<forall>p\<in>set out.
           find (\<lambda>q. founder_potential q = founder_potential p \<and> profile_key q = profile_key p) profiles = Some p"
  proof
    fix p assume p: "p \<in> set out"
    from p obtain i where i: "i < length ?xs" "p = ?xs ! i"
      "\<forall>j<i. profile_key (?xs ! j) \<noteq> profile_key (?xs ! i)"
      unfolding out deduplicate_results_mem by blast
    let ?K = "\<lambda>q::'a profile_scheme. profile_key q = profile_key p"
    let ?F = "\<lambda>q::'a profile_scheme. ?f q = ?f p"
    have "find (\<lambda>q. ?F q \<and> ?K q) ?xs = Some p"
      unfolding find_Some_iff using i by (intro exI [of _ i]) auto
    then have "find ?K (filter ?F ?xs) = Some p"
      by (simp only: find_filter)
    then have "find ?K (filter ?F profiles) = Some p"
      by (simp only: sort_key_stable)
    then have "find (\<lambda>q. ?F q \<and> ?K q) profiles = Some p"
      by (simp only: find_filter)
    then show "find (\<lambda>q. founder_potential q = founder_potential p \<and> profile_key q = profile_key p) profiles = Some p"
      by simp
  qed
qed

lemmas profile_defs = deduplicate_results_def mk_profile_def profile_key_def py_str_def Let_def

text \<open>
  C6, as the code has it. \<^verbatim>\<open>_deduplicate_results\<close> keeps, in the original order,
  exactly the profiles that are the first with their key, where the key is the text
  \<^verbatim>\<open>str(name) + "-" + str(company)\<close> with the empty string for an absent field.
  Two profiles with equal name fields and equal company fields have equal keys, so
  the later one is dropped.
\<close>

theorem deduplicate_results_first_of_key:
  "deduplicate_results ps =
     map (nth ps)
       (filter (\<lambda>i. \<forall>j<i. profile_key (ps ! j) \<noteq> profile_key (ps ! i)) [0..<length ps]) \<and>
   (name p = name q \<and> company p = company q \<longrightarrow> profile_key p = profile_key q)"
  by (simp add: deduplicate_results_char profile_key_def)

theorem deduplicate_results_first_of_key_witness:
  "deduplicate_results
     [mk_profile ''Ann'' ''Acme'' ''first'' 1, mk_profile ''Bob'' ''Init'' ''x'' 3,
      mk_profile ''Ann'' ''Acme'' ''second'' 5]
   = [mk_profile ''Ann'' ''Acme'' ''first'' 1, mk_profile ''Bob'' ''Init'' ''x'' 3]"
proof -
  let ?ps = "[mk_profile ''Ann'' ''Acme'' ''first'' 1, mk_profile ''Bob'' ''Init'' ''x'' 3,
              mk_profile ''Ann'' ''Acme'' ''second'' 5]"
  have k: "profile_key (mk_profile ''Ann'' ''Acme'' ''second'' 5)
           = profile_key (mk_profile ''Ann'' ''Acme'' ''first'' 1)"
    using deduplicate_results_first_of_key
      [of ?ps "mk_profile ''Ann'' ''Acme'' ''second'' 5" "mk_profile ''Ann'' ''Acme'' ''first'' 1"]
    by (simp add: mk_profile_def)
  have k2: "profile_key (mk_profile ''Bob'' ''Init'' ''x'' 3)
            \<noteq> profile_key (mk_profile ''Ann'' ''Acme'' ''first'' 1)"
    by (simp add: mk_profile_def profile_key_def py_str_def)
  show ?thesis
    using k k2 by (simp add: deduplicate_results_def Let_def)
qed

text \<open>
  C6 as stated fails in its ``only if'': the name \<^verbatim>\<open>a-b\<close> with the company \<^verbatim>\<open>c\<close>
  and the name \<^verbatim>\<open>a\<close> with the company \<^verbatim>\<open>b-c\<close> have the same key, and the second
  profile is dropped although both of its fields differ from the first's.
\<close>

theorem distinct_identities_collapse:
  "deduplicate_results [mk_profile ''a-b'' ''c'' ''first'' 1, mk_profile ''a'' ''b-c'' ''second'' 2]
     = [mk_profile ''a-b'' ''c'' ''first'' 1] \<and>
   name (mk_profile ''a-b'' ''c'' ''first'' 1) \<noteq> name (mk_profile ''a'' ''b-c'' ''second'' 2) \<and>
   company (mk_profile ''a-b'' ''c'' ''first'' 1) \<noteq> company (mk_profile ''a'' ''b-c'' ''second'' 2)"
  by (simp add: profile_defs)

text \<open>
  Stability, read off positions: two places of the sorted list with the same score,
  each the first of its key there, stand in the order in which the first profiles
  with that score and those keys were fetched.
\<close>

lemma takeWhile_filter:
  "takeWhile P (filter Q xs) = filter Q (takeWhile (\<lambda>x. Q x \<longrightarrow> P x) xs)"
  by (induction xs) auto

lemma first_index_via_sorted:
  fixes f :: "'a \<Rightarrow> 'k::linorder"
  assumes i: "i < length (sort_key f xs)" and A: "A (sort_key f xs ! i)"
    and first: "\<forall>m<i. \<not> A (sort_key f xs ! m)"
  shows "length (filter (\<lambda>y. f y = f (sort_key f xs ! i)) (take i (sort_key f xs)))
         = length (filter (\<lambda>y. f y = f (sort_key f xs ! i))
             (take (first_index (\<lambda>x. f x = f (sort_key f xs ! i) \<and> A x) xs) xs))"
proof -
  let ?S = "sort_key f xs"
  let ?Q = "\<lambda>y. f y = f (?S ! i)"
  have t: "takeWhile (\<lambda>x. ?Q x \<longrightarrow> \<not> A x) ?S = take i ?S"
  proof (rule takeWhile_eq_take_P_nth)
    fix m assume "m < i" "m < length ?S"
    with first show "?Q (?S ! m) \<longrightarrow> \<not> A (?S ! m)" by blast
  next
    assume "i < length ?S"
    show "\<not> (?Q (?S ! i) \<longrightarrow> \<not> A (?S ! i))" using A by simp
  qed
  have "filter ?Q (take i ?S) = takeWhile (\<lambda>x. \<not> A x) (filter ?Q ?S)"
    by (simp only: takeWhile_filter t)
  also have "\<dots> = takeWhile (\<lambda>x. \<not> A x) (filter ?Q xs)"
    by (simp only: sort_key_stable)
  also have "\<dots> = filter ?Q (takeWhile (\<lambda>x. ?Q x \<longrightarrow> \<not> A x) xs)"
    by (rule takeWhile_filter)
  also have "takeWhile (\<lambda>x. ?Q x \<longrightarrow> \<not> A x) xs
             = take (first_index (\<lambda>x. ?Q x \<and> A x) xs) xs"
  proof -
    have "(\<lambda>x. ?Q x \<longrightarrow> \<not> A x) = (\<lambda>x. \<not> (?Q x \<and> A x))" by auto
    then show ?thesis
      by (simp only: first_index_def takeWhile_eq_take [symmetric])
  qed
  finally show ?thesis by simp
qed

lemma stable_positions:
  fixes f :: "'a \<Rightarrow> 'k::linorder"
  assumes ij: "i < j" "j < length (sort_key f xs)"
    and eq: "f (sort_key f xs ! i) = f (sort_key f xs ! j)"
    and A: "A (sort_key f xs ! i)" "\<forall>m<i. \<not> A (sort_key f xs ! m)"
    and B: "B (sort_key f xs ! j)" "\<forall>m<j. \<not> B (sort_key f xs ! m)"
  shows "first_index (\<lambda>x. f x = f (sort_key f xs ! i) \<and> A x) xs
         < first_index (\<lambda>x. f x = f (sort_key f xs ! j) \<and> B x) xs"
proof -
  let ?S = "sort_key f xs"
  let ?Q = "\<lambda>y. f y = f (?S ! i)"
  let ?a = "first_index (\<lambda>x. ?Q x \<and> A x) xs"
  let ?b = "first_index (\<lambda>x. ?Q x \<and> B x) xs"
  have i: "i < length ?S" using ij by simp
  have ca: "length (filter ?Q (take i ?S)) = length (filter ?Q (take ?a xs))"
    by (rule first_index_via_sorted [OF i A])
  have cb: "length (filter ?Q (take j ?S)) = length (filter ?Q (take ?b xs))"
    using first_index_via_sorted [OF ij(2) B] eq by simp
  have "i < length (take j ?S)" using ij by simp
  then have "take j ?S = take i (take j ?S) @ (take j ?S) ! i # drop (Suc i) (take j ?S)"
    by (rule id_take_nth_drop)
  moreover have "take i (take j ?S) = take i ?S" using ij by (simp add: min.absorb1)
  moreover have "(take j ?S) ! i = ?S ! i" using ij by simp
  ultimately obtain Z where Z: "take j ?S = take i ?S @ ?S ! i # Z" by metis
  have "filter ?Q (take j ?S) = filter ?Q (take i ?S) @ ?S ! i # filter ?Q Z"
    unfolding Z by simp
  then have "length (filter ?Q (take j ?S)) = Suc (length (filter ?Q (take i ?S)) + length (filter ?Q Z))"
    by simp
  then have lt: "length (filter ?Q (take ?a xs)) < length (filter ?Q (take ?b xs))"
    using ca cb by simp
  have "?a < ?b"
  proof (rule ccontr)
    assume "\<not> ?a < ?b"
    then have le: "?b \<le> ?a" by simp
    define T where "T = take ?a xs"
    have "filter ?Q T = filter ?Q (take ?b T) @ filter ?Q (drop ?b T)"
      by (simp only: filter_append [symmetric] append_take_drop_id)
    then have "length (filter ?Q (take ?b T)) \<le> length (filter ?Q T)"
      by simp
    moreover have "take ?b T = take ?b xs" using le by (simp add: T_def min.absorb1)
    ultimately have "length (filter ?Q (take ?b xs)) \<le> length (filter ?Q (take ?a xs))"
      by (simp add: T_def)
    with lt show False by simp
  qed
  then show ?thesis using eq by simp
qed

lemma pipeline_ties:
  fixes profiles :: "'a profile_scheme list"
  assumes ab: "a < b" "b < length (search_professional_profiles profiles)"
    and eq: "founder_potential (search_professional_profiles profiles ! a)
             = founder_potential (search_professional_profiles profiles ! b)"
  shows "fetch_position profiles (search_professional_profiles profiles ! a)
         < fetch_position profiles (search_professional_profiles profiles ! b)"
proof -
  let ?f = "\<lambda>p::'a profile_scheme. - founder_potential p"
  define S where "S = sort_key ?f profiles"
  define P where "P = (\<lambda>i. \<forall>j<i. profile_key (S ! j) \<noteq> profile_key (S ! i))"
  define I where "I = filter P [0..<length S]"
  let ?out = "search_professional_profiles profiles"
  have out: "?out = map (nth S) I"
    by (simp add: search_professional_profiles_def sorted_by_founder_potential_def
        deduplicate_results_char S_def P_def I_def)
  have len: "length ?out = length I" by (simp add: out)
  have "sorted_wrt (<) I" unfolding I_def by (rule sorted_wrt_filter) simp
  then have lt: "I ! a < I ! b"
    using ab len by (simp add: sorted_wrt_nth_less)
  have "I ! a \<in> set I" "I ! b \<in> set I"
    using ab len by simp_all
  then have mem: "P (I ! a)" "P (I ! b)" "I ! b < length S"
    unfolding I_def by simp_all
  have firsta: "\<forall>m<I ! a. \<not> profile_key (S ! m) = profile_key (S ! (I ! a))"
    using mem(1) unfolding P_def by simp
  have firstb: "\<forall>m<I ! b. \<not> profile_key (S ! m) = profile_key (S ! (I ! b))"
    using mem(2) unfolding P_def by simp
  have oa: "?out ! a = S ! (I ! a)" and ob: "?out ! b = S ! (I ! b)"
    using ab len by (simp_all add: out)
  have eq': "?f (S ! (I ! a)) = ?f (S ! (I ! b))"
    using eq oa ob by simp
  have "first_index (\<lambda>x. ?f x = ?f (sort_key ?f profiles ! (I ! a)) \<and>
                          profile_key x = profile_key (S ! (I ! a))) profiles
        < first_index (\<lambda>x. ?f x = ?f (sort_key ?f profiles ! (I ! b)) \<and>
                          profile_key x = profile_key (S ! (I ! b))) profiles"
  proof (rule stable_positions [OF lt])
    show "I ! b < length (sort_key ?f profiles)" using mem(3) by (simp add: S_def)
    show "?f (sort_key ?f profiles ! (I ! a)) = ?f (sort_key ?f profiles ! (I ! b))"
      using eq' by (simp add: S_def)
    show "profile_key (sort_key ?f profiles ! (I ! a)) = profile_key (S ! (I ! a))"
      by (simp add: S_def)
    show "\<forall>m<I ! a. \<not> profile_key (sort_key ?f profiles ! m) = profile_key (S ! (I ! a))"
      using firsta by (simp add: S_def)
    show "profile_key (sort_key ?f profiles ! (I ! b)) = profile_key (S ! (I ! b))"
      by (simp add: S_def)
    show "\<forall>m<I ! b. \<not> profile_key (sort_key ?f profiles ! m) = profile_key (S ! (I ! b))"
      using firstb by (simp add: S_def)
  qed
  then show ?thesis
    unfolding fetch_position_def oa ob by (simp add: S_def)
qed

text \<open>
  C3, as the code has it. The fetched profiles are first sorted by
  \<^verbatim>\<open>founder_potential\<close>, descending and stable, and then deduplicated. So the
  result is sorted descending, holds every key of the input exactly once, and for
  each key holds the profile with the greatest \<^verbatim>\<open>founder_potential\<close> among the
  fetched profiles of that key, the earliest in fetch order among those that tie.
  Profiles of the result with equal \<^verbatim>\<open>founder_potential\<close> stand in fetch order:
  the one that comes first in the result was fetched first.
\<close>

theorem search_professional_profiles_keeps_best:
  fixes profiles :: "'a profile_scheme list"
  shows "sorted (map (\<lambda>p. - founder_potential p) (search_professional_profiles profiles)) \<and>
    distinct (map profile_key (search_professional_profiles profiles)) \<and>
    profile_key ` set (search_professional_profiles profiles) = profile_key ` set profiles \<and>
    (\<forall>p\<in>set (search_professional_profiles profiles). \<forall>q\<in>set profiles.
       profile_key q = profile_key p \<longrightarrow> founder_potential q \<le> founder_potential p) \<and>
    (\<forall>p\<in>set (search_professional_profiles profiles).
       find (\<lambda>q. founder_potential q = founder_potential p \<and> profile_key q = profile_key p)
         profiles = Some p) \<and>
    (\<forall>a b. a < b \<and> b < length (search_professional_profiles profiles) \<and>
       founder_potential (search_professional_profiles profiles ! a)
         = founder_potential (search_professional_profiles profiles ! b) \<longrightarrow>
       fetch_position profiles (search_professional_profiles profiles ! a)
         < fetch_position profiles (search_professional_profiles profiles ! b))"
  using pipeline_properties [of profiles] pipeline_ties [of _ _ profiles] by blast

theorem search_professional_profiles_keeps_best_witness:
  "search_professional_profiles
     [mk_profile ''Ann'' ''Acme'' ''first'' 1, mk_profile ''Bob'' ''Init'' ''x'' 3,
      mk_profile ''Cy'' ''Corp'' ''y'' 3, mk_profile ''Ann'' ''Acme'' ''second'' 5]
   = [mk_profile ''Ann'' ''Acme'' ''second'' 5, mk_profile ''Bob'' ''Init'' ''x'' 3,
      mk_profile ''Cy'' ''Corp'' ''y'' 3] \<and>
   founder_potential (mk_profile ''Ann'' ''Acme'' ''first'' 1)
     \<le> founder_potential (mk_profile ''Ann'' ''Acme'' ''second'' 5) \<and>
   fetch_position
     [mk_profile ''Ann'' ''Acme'' ''first'' 1, mk_profile ''Bob'' ''Init'' ''x'' 3,
      mk_profile ''Cy'' ''Corp'' ''y'' 3, mk_profile ''Ann'' ''Acme'' ''second'' 5]
     (mk_profile ''Bob'' ''Init'' ''x'' 3)
   < fetch_position
     [mk_profile ''Ann'' ''Acme'' ''first'' 1, mk_profile ''Bob'' ''Init'' ''x'' 3,
      mk_profile ''Cy'' ''Corp'' ''y'' 3, mk_profile ''Ann'' ''Acme'' ''second'' 5]
     (mk_profile ''Cy'' ''Corp'' ''y'' 3)"
proof -
  let ?ps = "[mk_profile ''Ann'' ''Acme'' ''first'' 1, mk_profile ''Bob'' ''Init'' ''x'' 3,
              mk_profile ''Cy'' ''Corp'' ''y'' 3, mk_profile ''Ann'' ''Acme'' ''second'' 5]"
  have out: "search_professional_profiles ?ps
             = [mk_profile ''Ann'' ''Acme'' ''second'' 5, mk_profile ''Bob'' ''Init'' ''x'' 3,
                mk_profile ''Cy'' ''Corp'' ''y'' 3]"
    by (simp add: profile_defs search_professional_profiles_def sorted_by_founder_potential_def)
  have k: "profile_key (mk_profile ''Ann'' ''Acme'' ''first'' 1)
           = profile_key (mk_profile ''Ann'' ''Acme'' ''second'' 5)"
    by (simp add: mk_profile_def profile_key_def)
  note best = search_professional_profiles_keeps_best [of ?ps]
  from best
  have "\<forall>p\<in>set (search_professional_profiles ?ps). \<forall>q\<in>set ?ps.
          profile_key q = profile_key p \<longrightarrow> founder_potential q \<le> founder_potential p"
    by blast
  then have one: "founder_potential (mk_profile ''Ann'' ''Acme'' ''first'' 1)
             \<le> founder_potential (mk_profile ''Ann'' ''Acme'' ''second'' 5)"
    unfolding out using k by simp
  from best
  have "\<forall>a b. a < b \<and> b < length (search_professional_profiles ?ps) \<and>
       founder_potential (search_professional_profiles ?ps ! a)
         = founder_potential (search_professional_profiles ?ps ! b) \<longrightarrow>
       fetch_position ?ps (search_professional_profiles ?ps ! a)
         < fetch_position ?ps (search_professional_profiles ?ps ! b)"
    by blast
  then have "(1::nat) < 2 \<and> 2 < length (search_professional_profiles ?ps) \<and>
       founder_potential (search_professional_profiles ?ps ! 1)
         = founder_potential (search_professional_profiles ?ps ! 2) \<longrightarrow>
       fetch_position ?ps (search_professional_profiles ?ps ! 1)
         < fetch_position ?ps (search_professional_profiles ?ps ! 2)"
    by blast
  then have two: "fetch_position ?ps (mk_profile ''Bob'' ''Init'' ''x'' 3)
                  < fetch_position ?ps (mk_profile ''Cy'' ''Corp'' ''y'' 3)"
    unfolding out by (simp add: mk_profile_def)
  from out one two show ?thesis by simp
qed

text \<open>
  C3 as stated fails: of two fetched profiles with one key, the later one is kept
  when its \<^verbatim>\<open>founder_potential\<close> is greater; deduplicating before sorting would
  have kept the earlier one.
\<close>

theorem later_profile_retained:
  "search_professional_profiles
     [mk_profile ''Ann'' ''Acme'' ''first'' 1, mk_profile ''Ann'' ''Acme'' ''second'' 5]
     = [mk_profile ''Ann'' ''Acme'' ''second'' 5] \<and>
   dedupe_then_sort
     [mk_profile ''Ann'' ''Acme'' ''first'' 1, mk_profile ''Ann'' ''Acme'' ''second'' 5]
     = [mk_profile ''Ann'' ''Acme'' ''first'' 1] \<and>
   profile_key (mk_profile ''Ann'' ''Acme'' ''first'' 1)
     = profile_key (mk_profile ''Ann'' ''Acme'' ''second'' 5)"
  by (simp add: profile_defs search_professional_profiles_def sorted_by_founder_potential_def
      dedupe_then_sort_def)

section \<open>Properties of the scores and of the age estimate\<close>

lemmas age_defs = calculate_age_info_def age_info_body_def parse_timestamp_def get_text_def
  replace_Z_def day_env_def user_with_bio_def days_def years_of_days_def ascii_db_def
  ascii_lower_char_def ascii_decimal_digit_def match_class_of_def py_trunc_def Let_def

text \<open>
  C7. With an empty repository list the loop does not run: the three scores keep
  their initial value 0 before scaling, and so do the scaled scores and
  \<^verbatim>\<open>founder_potential\<close>, whatever the user's followers, following and activity are.
\<close>

theorem calculate_technical_score_no_repos:
  "technical (score_loop u [] freq) = 0 \<and>
   innovation (score_loop u [] freq) = 0 \<and>
   collaboration (score_loop u [] freq) = 0 \<and>
   technical_score (calculate_technical_score te u [] freq) = 0 \<and>
   innovation_score (calculate_technical_score te u [] freq) = 0 \<and>
   collaboration_score (calculate_technical_score te u [] freq) = 0 \<and>
   founder_potential (calculate_technical_score te u [] freq) = 0"
  by (simp add: score_loop_def calculate_technical_score_def Let_def)

theorem calculate_technical_score_no_repos_witness:
  "founder_potential
     (calculate_technical_score day_env (user_with_bio (Some (JStr ''hello''))) [] VeryHigh) = 0 \<and>
   u_followers (user_with_bio (Some (JStr ''hello''))) = Some 900"
  using calculate_technical_score_no_repos
    [of "user_with_bio (Some (JStr ''hello''))" VeryHigh day_env]
  by (simp add: user_with_bio_def)

text \<open>
  The pattern of line 351, spelled out: \<open>search_class_of\<close> finds the year \<open>y\<close>
  exactly when the text splits into a part without a match, then \<^verbatim>\<open>class of 20\<close>,
  then two decimal digits that make \<open>y\<close>, then the rest; it finds nothing exactly
  when no part of the text starts so.
\<close>

lemma match_class_of_Some_iff:
  "match_class_of ud s = Some y \<longleftrightarrow>
     (\<exists>t d1 s1 d2 s2. s = ''class of 20'' @ t \<and> decimal_digit ud t = Some (d1, s1) \<and>
        decimal_digit ud s1 = Some (d2, s2) \<and> y = 2000 + 10 * d1 + d2)"
proof
  assume m: "match_class_of ud s = Some y"
  then have t: "take 11 s = ''class of 20''"
    by (simp add: match_class_of_def split: if_splits)
  from m t obtain d1 s1 d2 s2 where d: "decimal_digit ud (drop 11 s) = Some (d1, s1)"
    "decimal_digit ud s1 = Some (d2, s2)" "y = 2000 + 10 * d1 + d2"
    by (auto simp: match_class_of_def split: option.splits)
  have "s = take 11 s @ drop 11 s" by simp
  then have "s = ''class of 20'' @ drop 11 s" by (simp only: t)
  with d show "\<exists>t d1 s1 d2 s2. s = ''class of 20'' @ t \<and> decimal_digit ud t = Some (d1, s1) \<and>
        decimal_digit ud s1 = Some (d2, s2) \<and> y = 2000 + 10 * d1 + d2"
    by blast
next
  assume "\<exists>t d1 s1 d2 s2. s = ''class of 20'' @ t \<and> decimal_digit ud t = Some (d1, s1) \<and>
        decimal_digit ud s1 = Some (d2, s2) \<and> y = 2000 + 10 * d1 + d2"
  then show "match_class_of ud s = Some y"
    by (auto simp: match_class_of_def)
qed

lemma search_class_of_None_iff:
  "search_class_of ud s = None \<longleftrightarrow>
     (\<forall>pre post. s = pre @ post \<longrightarrow> match_class_of ud post = None)"
proof (induction s)
  case Nil
  show ?case by (simp add: match_class_of_def)
next
  case (Cons c cs)
  show ?case
  proof
    assume n: "search_class_of ud (c # cs) = None"
    then have h: "match_class_of ud (c # cs) = None" and t: "search_class_of ud cs = None"
      by (auto split: option.splits)
    show "\<forall>pre post. c # cs = pre @ post \<longrightarrow> match_class_of ud post = None"
    proof (intro allI impI)
      fix pre post assume e: "c # cs = pre @ post"
      show "match_class_of ud post = None"
      proof (cases pre)
        case Nil
        with e h show ?thesis by simp
      next
        case (Cons a pre')
        with e have "cs = pre' @ post" by simp
        with t Cons.IH show ?thesis by blast
      qed
    qed
  next
    assume a: "\<forall>pre post. c # cs = pre @ post \<longrightarrow> match_class_of ud post = None"
    then have h: "match_class_of ud (c # cs) = None" by (metis append_Nil)
    have "\<forall>pre post. cs = pre @ post \<longrightarrow> match_class_of ud post = None"
      using a by (metis append_Cons)
    then have "search_class_of ud cs = None" using Cons.IH by blast
    with h show "search_class_of ud (c # cs) = None" by simp
  qed
qed

lemma search_class_of_Some_iff:
  "search_class_of ud s = Some y \<longleftrightarrow>
     (\<exists>pre post. s = pre @ post \<and> match_class_of ud post = Some y \<and>
        (\<forall>pre1 post1. pre = pre1 @ post1 \<and> post1 \<noteq> [] \<longrightarrow>
           match_class_of ud (post1 @ post) = None))"
proof (induction s)
  case Nil
  show ?case by (simp add: match_class_of_def)
next
  case (Cons c cs)
  show ?case
  proof (cases "match_class_of ud (c # cs)")
    case (Some z)
    show ?thesis
    proof
      assume "search_class_of ud (c # cs) = Some y"
      with Some have "match_class_of ud (c # cs) = Some y" by simp
      then show "\<exists>pre post. c # cs = pre @ post \<and> match_class_of ud post = Some y \<and>
        (\<forall>pre1 post1. pre = pre1 @ post1 \<and> post1 \<noteq> [] \<longrightarrow>
           match_class_of ud (post1 @ post) = None)"
        by (intro exI [of _ "[]"] exI [of _ "c # cs"]) simp
    next
      assume "\<exists>pre post. c # cs = pre @ post \<and> match_class_of ud post = Some y \<and>
        (\<forall>pre1 post1. pre = pre1 @ post1 \<and> post1 \<noteq> [] \<longrightarrow>
           match_class_of ud (post1 @ post) = None)"
      then obtain pre post where p: "c # cs = pre @ post" "match_class_of ud post = Some y"
        "\<forall>pre1 post1. pre = pre1 @ post1 \<and> post1 \<noteq> [] \<longrightarrow> match_class_of ud (post1 @ post) = None"
        by blast
      have "pre = []"
      proof (rule ccontr)
        assume "pre \<noteq> []"
        with p(3) have "match_class_of ud (pre @ post) = None" by (metis append_Nil)
        with p(1) Some show False by simp
      qed
      with p(1) have "post = c # cs" by simp
      with p(2) have "match_class_of ud (c # cs) = Some y" by simp
      then show "search_class_of ud (c # cs) = Some y" by simp
    qed
  next
    case None
    then have s: "search_class_of ud (c # cs) = search_class_of ud cs" by simp
    show ?thesis
    proof
      assume "search_class_of ud (c # cs) = Some y"
      with s Cons.IH obtain pre post where p: "cs = pre @ post" "match_class_of ud post = Some y"
        "\<forall>pre1 post1. pre = pre1 @ post1 \<and> post1 \<noteq> [] \<longrightarrow> match_class_of ud (post1 @ post) = None"
        by auto
      have "\<forall>pre1 post1. c # pre = pre1 @ post1 \<and> post1 \<noteq> [] \<longrightarrow>
              match_class_of ud (post1 @ post) = None"
      proof (intro allI impI)
        fix pre1 post1 assume a: "c # pre = pre1 @ post1 \<and> post1 \<noteq> []"
        show "match_class_of ud (post1 @ post) = None"
        proof (cases pre1)
          case Nil
          with a have "post1 @ post = c # cs" using p(1) by simp
          with None show ?thesis by simp
        next
          case (Cons x pre2)
          with a have "pre = pre2 @ post1 \<and> post1 \<noteq> []" by simp
          with p(3) show ?thesis by blast
        qed
      qed
      with p(1,2) show "\<exists>pre post. c # cs = pre @ post \<and> match_class_of ud post = Some y \<and>
        (\<forall>pre1 post1. pre = pre1 @ post1 \<and> post1 \<noteq> [] \<longrightarrow>
           match_class_of ud (post1 @ post) = None)"
        by (intro exI [of _ "c # pre"] exI [of _ post]) simp
    next
      assume "\<exists>pre post. c # cs = pre @ post \<and> match_class_of ud post = Some y \<and>
        (\<forall>pre1 post1. pre = pre1 @ post1 \<and> post1 \<noteq> [] \<longrightarrow>
           match_class_of ud (post1 @ post) = None)"
      then obtain pre post where p: "c # cs = pre @ post" "match_class_of ud post = Some y"
        "\<forall>pre1 post1. pre = pre1 @ post1 \<and> post1 \<noteq> [] \<longrightarrow> match_class_of ud (post1 @ post) = None"
        by blast
      from p(1,2) None obtain pre' where pre': "pre = c # pre'" "cs = pre' @ post"
        by (cases pre) auto
      have "\<forall>pre1 post1. pre' = pre1 @ post1 \<and> post1 \<noteq> [] \<longrightarrow>
              match_class_of ud (post1 @ post) = None"
        using p(3) pre'(1) by (metis append_Cons)
      with pre'(2) p(2) have "search_class_of ud cs = Some y"
        using Cons.IH by blast
      with s show "search_class_of ud (c # cs) = Some y" by simp
    qed
  qed
qed




text \<open>
  C9. A bio that is present with the value \<^verbatim>\<open>null\<close> makes \<^verbatim>\<open>.lower()\<close> raise inside
  the \<^verbatim>\<open>try\<close> statement, so the whole result is the degraded record, whatever the
  creation timestamp and the repositories are; with the same valid timestamp an
  absent bio gives the account age.
\<close>

theorem calculate_age_info_null_bio:
  assumes "u_bio u = Some JNull"
  shows "calculate_age_info ud te u repos =
           \<lparr>account_age = NA, estimated_age = None, early_achievements = []\<rparr>"
proof -
  have "get_text (u_bio u) = None"
    using assms by (simp add: get_text_def)
  then have "age_info_body ud te u repos = None"
    by (simp add: age_info_body_def Let_def split: option.splits)
  then show ?thesis
    by (simp add: calculate_age_info_def)
qed

theorem calculate_age_info_null_bio_witness:
  "parse_timestamp day_env (u_created_at (user_with_bio (Some JNull))) = Some 0 \<and>
   calculate_age_info ascii_db day_env (user_with_bio (Some JNull)) []
     = \<lparr>account_age = NA, estimated_age = None, early_achievements = []\<rparr> \<and>
   account_age (calculate_age_info ascii_db day_env (user_with_bio None) [])
     = YearsText (14612 / 1461)"
proof -
  have b: "u_bio (user_with_bio (Some JNull)) = Some JNull"
    by (simp add: user_with_bio_def)
  have c: "parse_timestamp day_env (u_created_at (user_with_bio (Some JNull))) = Some 0"
    by (simp add: parse_timestamp_def get_text_def replace_Z_def day_env_def user_with_bio_def)
  have a: "account_age (calculate_age_info ascii_db day_env (user_with_bio None) [])
           = YearsText (14612 / 1461)"
    by (simp add: age_defs)
  show ?thesis
    using calculate_age_info_null_bio [OF b, of ascii_db day_env "[]"] c a by simp
qed

end
